theory Spec2Isabelle
  imports Complex_Main "HOL-Library.Sublist"
begin

section \<open>Result portal: schema inference and aggregation (src/src/App.jsx)\<close>

text \<open>
  The functions of App.jsx that classify the columns of a parsed sheet and aggregate
  its rows, as HOL functions.

  \<^item> A JavaScript string is a \<^typ>\<open>string\<close>. Field names and cell texts are taken to be
    ASCII: \<open>toLowerCase\<close> maps \<open>A\<close>..\<open>Z\<close> to \<open>a\<close>..\<open>z\<close> and leaves every other
    character alone, and white space is TAB, LF, VT, FF, CR and SPACE.
  \<^item> A JavaScript number is a \<open>jsnum\<close>: \<open>NaN\<close>, the two infinities, or a finite value,
    which is the rational number it denotes. Arithmetic on finite values is exact:
    the rounding of binary64 and the overflow of a sum or difference are outside the
    model (negative zero is zero).
  \<^item> A row is the list of its own properties in \<open>Object.keys\<close> order. Field names are
    taken not to be names of members of \<open>Object.prototype\<close>, so a property that a row
    does not own reads as \<open>undefined\<close>.
\<close>

subsection \<open>Characters and strings\<close>

definition isUpper :: "char \<Rightarrow> bool" where
  "isUpper c = (c \<in> set ''ABCDEFGHIJKLMNOPQRSTUVWXYZ'')"

definition isLower :: "char \<Rightarrow> bool" where
  "isLower c = (c \<in> set ''abcdefghijklmnopqrstuvwxyz'')"

definition isDigit :: "char \<Rightarrow> bool" where
  "isDigit c = (c \<in> set ''0123456789'')"

text \<open>The class \<open>\s\<close> of a regular expression, and what \<open>trim\<close> strips, on ASCII.\<close>

definition isSpace :: "char \<Rightarrow> bool" where
  "isSpace c = (c \<in> {CHR 0x09, CHR 0x0A, CHR 0x0B, CHR 0x0C, CHR 0x0D, CHR '' ''})"

text \<open>The class \<open>\w\<close>.\<close>

definition isWord :: "char \<Rightarrow> bool" where
  "isWord c = (isUpper c \<or> isLower c \<or> isDigit c \<or> c = CHR ''_'')"

definition lowerChar :: "char \<Rightarrow> char" where
  "lowerChar c =
     (case map_of (zip ''ABCDEFGHIJKLMNOPQRSTUVWXYZ'' ''abcdefghijklmnopqrstuvwxyz'') c of
        Some d \<Rightarrow> d
      | None \<Rightarrow> c)"

definition upperChar :: "char \<Rightarrow> char" where
  "upperChar c =
     (case map_of (zip ''abcdefghijklmnopqrstuvwxyz'' ''ABCDEFGHIJKLMNOPQRSTUVWXYZ'') c of
        Some d \<Rightarrow> d
      | None \<Rightarrow> c)"

definition toLowerCase :: "string \<Rightarrow> string" where
  "toLowerCase s = map lowerChar s"

definition trim :: "string \<Rightarrow> string" where
  "trim s = rev (dropWhile isSpace (rev (dropWhile isSpace s)))"

text \<open>\<open>s.includes(t)\<close>: \<open>t\<close> occurs in \<open>s\<close> as a contiguous substring.\<close>

fun includesStr :: "string \<Rightarrow> string \<Rightarrow> bool" where
  "includesStr [] t = (t = [])"
| "includesStr (c # s) t = (prefix t (c # s) \<or> includesStr s t)"

subsection \<open>Numbers and \<open>parseFloat\<close>\<close>

datatype jsnum = Fin rat | PosInf | NegInf | NaN

fun isFinite :: "jsnum \<Rightarrow> bool" where
  "isFinite (Fin q) = True"
| "isFinite _ = False"

fun digitVal :: "char \<Rightarrow> nat" where
  "digitVal c = (case map_of (zip ''0123456789'' [0, 1, 2, 3, 4, 5, 6, 7, 8, 9]) c of
                   Some d \<Rightarrow> d
                 | None \<Rightarrow> 0)"

text \<open>The value of a run of decimal digits, most significant first.\<close>

definition digitsVal :: "string \<Rightarrow> nat" where
  "digitsVal ds = foldl (\<lambda>acc c. 10 * acc + digitVal c) 0 ds"

fun stripSign :: "string \<Rightarrow> bool \<times> string" where
  "stripSign [] = (False, [])"
| "stripSign (c # r) =
     (if c = CHR ''-'' then (True, r)
      else if c = CHR ''+'' then (False, r)
      else (False, c # r))"

text \<open>
  The \<open>ExponentPart\<close> of a \<open>StrDecimalLiteral\<close>: \<open>e\<close> or \<open>E\<close>, an optional sign and at
  least one digit. Anything else is not part of the literal and the exponent is 0.
\<close>

definition exponentPart :: "string \<Rightarrow> int" where
  "exponentPart s =
     (case s of
        [] \<Rightarrow> 0
      | c # r \<Rightarrow>
          if c = CHR ''e'' \<or> c = CHR ''E'' then
            (let (neg, r') = stripSign r; ds = takeWhile isDigit r'
             in if ds = [] then 0
                else if neg then - int (digitsVal ds) else int (digitsVal ds))
          else 0)"

definition scale10 :: "rat \<Rightarrow> int \<Rightarrow> rat" where
  "scale10 m e = (if 0 \<le> e then m * 10 ^ nat e else m / 10 ^ nat (- e))"

text \<open>
  A decimal value whose magnitude reaches \<open>2^1024 - 2^970\<close> rounds to an infinity in
  binary64; below it the result is finite.
\<close>

definition fromDecimal :: "rat \<Rightarrow> jsnum" where
  "fromDecimal q =
     (if 2 ^ 1024 - 2 ^ 970 \<le> q then PosInf
      else if q \<le> - (2 ^ 1024 - 2 ^ 970) then NegInf
      else Fin q)"

text \<open>
  \<open>parseFloat(s)\<close>: skip leading white space, then read the longest prefix that is a
  \<open>StrDecimalLiteral\<close> (sign, \<open>Infinity\<close> or digits with an optional fraction and
  exponent); \<open>NaN\<close> when there is none.
\<close>

definition parseFloat :: "string \<Rightarrow> jsnum" where
  "parseFloat s =
     (let (neg, s2) = stripSign (dropWhile isSpace s)
      in if prefix ''Infinity'' s2 then (if neg then NegInf else PosInf)
         else
           let ip = takeWhile isDigit s2;
               r1 = dropWhile isDigit s2;
               hasDot = (r1 \<noteq> [] \<and> hd r1 = CHR ''.'');
               fp = (if hasDot then takeWhile isDigit (tl r1) else []);
               r2 = (if hasDot then dropWhile isDigit (tl r1) else r1)
           in if ip = [] \<and> fp = [] then NaN
              else
                let m = scale10 (of_nat (digitsVal (ip @ fp)) / 10 ^ length fp)
                          (exponentPart r2)
                in fromDecimal (if neg then - m else m))"

subsection \<open>Rows\<close>

text \<open>A cell is \<open>undefined\<close>/\<open>null\<close> (\<open>Absent\<close>), a string or a number.\<close>

datatype cell = Absent | Str string | Num jsnum

type_synonym row = "(string \<times> cell) list"

definition keysOf :: "row \<Rightarrow> string list" where
  "keysOf r = map fst r"

definition getCell :: "row \<Rightarrow> string \<Rightarrow> cell" where
  "getCell r k = (case map_of r k of None \<Rightarrow> Absent | Some v \<Rightarrow> v)"

text \<open>\<open>typeof raw === 'number' ? raw : parseFloat(raw)\<close>; \<open>parseFloat(undefined)\<close> is \<open>NaN\<close>.\<close>

fun toNum :: "cell \<Rightarrow> jsnum" where
  "toNum (Num n) = n"
| "toNum (Str s) = parseFloat s"
| "toNum Absent = NaN"

text \<open>\<open>raw === '' || raw == null\<close>\<close>

fun isEmptyCell :: "cell \<Rightarrow> bool" where
  "isEmptyCell Absent = True"
| "isEmptyCell (Str s) = (s = [])"
| "isEmptyCell (Num n) = False"

subsection \<open>Text and numeric fields (first row only)\<close>

definition detectTextFields :: "row list \<Rightarrow> string list" where
  "detectTextFields rows =
     (case rows of
        [] \<Rightarrow> []
      | sample # _ \<Rightarrow>
          filter (\<lambda>k. case getCell sample k of Str s \<Rightarrow> trim s \<noteq> [] | _ \<Rightarrow> False)
            (keysOf sample))"

definition detectNumericFields :: "row list \<Rightarrow> string list" where
  "detectNumericFields rows =
     (case rows of
        [] \<Rightarrow> []
      | sample # _ \<Rightarrow> filter (\<lambda>k. isFinite (toNum (getCell sample k))) (keysOf sample))"

subsection \<open>\<open>prettyKey\<close>\<close>

text \<open>\<open>.replace(/([a-z])([A-Z])/g, '$1 $2')\<close>\<close>

fun splitCamel :: "string \<Rightarrow> string" where
  "splitCamel (c # d # r) =
     (if isLower c \<and> isUpper d then c # CHR '' '' # d # splitCamel r
      else c # splitCamel (d # r))"
| "splitCamel s = s"

text \<open>\<open>.replace(/\s+/g, ' ')\<close>; the flag says that the run of white space has begun.\<close>

fun collapseSpaces :: "bool \<Rightarrow> string \<Rightarrow> string" where
  "collapseSpaces inRun [] = []"
| "collapseSpaces inRun (c # r) =
     (if isSpace c then (if inRun then collapseSpaces True r
                         else CHR '' '' # collapseSpaces True r)
      else c # collapseSpaces False r)"

text \<open>
  \<open>.replace(/\b\w/g, (c) => c.toUpperCase())\<close>; the flag says that the character
  before is a word character.
\<close>

fun capitalizeWords :: "bool \<Rightarrow> string \<Rightarrow> string" where
  "capitalizeWords afterWord [] = []"
| "capitalizeWords afterWord (c # r) =
     (if isWord c \<and> \<not> afterWord then upperChar c else c) # capitalizeWords (isWord c) r"

definition prettyKey :: "string \<Rightarrow> string" where
  "prettyKey k =
     trim (capitalizeWords False (collapseSpaces False (splitCamel
       (map (\<lambda>c. if c = CHR ''_'' then CHR '' '' else c) k))))"

subsection \<open>The credit patterns\<close>

text \<open>
  \<open>\d+(\.\d+)?\<close> at the head of a string: the digits, the fraction when a dot and a
  digit follow, and the rest. The digits are taken greedily; giving one back never
  helps, since what must follow in either pattern is not a digit.
\<close>

definition decimalAt :: "string \<Rightarrow> (string \<times> string) option" where
  "decimalAt s =
     (let ds = takeWhile isDigit s; r1 = dropWhile isDigit s
      in if ds = [] then None
         else if r1 \<noteq> [] \<and> hd r1 = CHR ''.'' \<and> takeWhile isDigit (tl r1) \<noteq> []
         then Some (ds @ CHR ''.'' # takeWhile isDigit (tl r1), dropWhile isDigit (tl r1))
         else Some (ds, r1))"

text \<open>
  \<open>/\((\d+(\.\d+)?)\)/\<close> anchored at the head of the string: group 1. When the
  fraction is taken and no \<open>)\<close> follows it, the match is tried again without the
  fraction.
\<close>

definition parenAt :: "string \<Rightarrow> string option" where
  "parenAt s =
     (case s of
        [] \<Rightarrow> None
      | c # r \<Rightarrow>
          if c \<noteq> CHR ''('' then None
          else (case decimalAt r of
                  None \<Rightarrow> None
                | Some (g, rest) \<Rightarrow>
                    if rest \<noteq> [] \<and> hd rest = CHR '')'' then Some g
                    else if dropWhile isDigit r \<noteq> [] \<and> hd (dropWhile isDigit r) = CHR '')''
                    then Some (takeWhile isDigit r)
                    else None))"

text \<open>\<open>key.match(/\((\d+(\.\d+)?)\)/)\<close>: group 1 of the leftmost match.\<close>

fun parenMatch :: "string \<Rightarrow> string option" where
  "parenMatch [] = None"
| "parenMatch (c # r) =
     (case parenAt (c # r) of Some g \<Rightarrow> Some g | None \<Rightarrow> parenMatch r)"

text \<open>\<open>/(\d+(\.\d+)?)\s*$/\<close> anchored at the head of the string: group 1.\<close>

definition trailingAt :: "string \<Rightarrow> string option" where
  "trailingAt s =
     (case decimalAt s of
        None \<Rightarrow> None
      | Some (g, rest) \<Rightarrow>
          if list_all isSpace rest then Some g
          else if list_all isSpace (dropWhile isDigit s) then Some (takeWhile isDigit s)
          else None)"

text \<open>\<open>key.match(/(\d+(\.\d+)?)\s*$/)\<close>: group 1 of the leftmost match.\<close>

fun trailingMatch :: "string \<Rightarrow> string option" where
  "trailingMatch [] = None"
| "trailingMatch (c # r) =
     (case trailingAt (c # r) of Some g \<Rightarrow> Some g | None \<Rightarrow> trailingMatch r)"

definition parseCredit :: "string \<Rightarrow> jsnum option" where
  "parseCredit k =
     (case parenMatch k of
        Some g \<Rightarrow> Some (parseFloat g)
      | None \<Rightarrow>
          (case trailingMatch k of
             Some g \<Rightarrow> Some (parseFloat g)
           | None \<Rightarrow> None))"

subsection \<open>\<open>extractSubjectFields\<close>\<close>

record FieldDescriptor =
  key :: string
  label :: string
  credit :: "jsnum option"

definition idLike :: "string \<Rightarrow> bool" where
  "idLike lower =
     list_ex (includesStr lower)
       [''roll'', ''reg'', ''registration'', ''enrol'', ''enrollment'', ''id'']"

definition aggregateLike :: "string \<Rightarrow> bool" where
  "aggregateLike lower =
     list_ex (includesStr lower)
       [''total'', ''aggregate'', ''overall'', ''gpa'', ''cgpa'', ''sgpa'', ''percentage'',
        ''percent'', ''score'']"

text \<open>
  The loop over the rows of one column: \<open>None\<close> is the \<open>return null\<close> at a value that
  is not numeric, \<open>Some hasNumeric\<close> the flag after the last row.
\<close>

fun scanColumn :: "row list \<Rightarrow> string \<Rightarrow> bool \<Rightarrow> bool option" where
  "scanColumn [] k hasNumeric = Some hasNumeric"
| "scanColumn (r # rest) k hasNumeric =
     (if isEmptyCell (getCell r k) then scanColumn rest k hasNumeric
      else if \<not> isFinite (toNum (getCell r k)) then None
      else scanColumn rest k True)"

definition subjectOf :: "row list \<Rightarrow> string set \<Rightarrow> string \<Rightarrow> FieldDescriptor option" where
  "subjectOf rows textSet k =
     (let lower = toLowerCase k
      in if lower \<in> textSet \<or> idLike lower \<or> aggregateLike lower then None
         else (case scanColumn rows k False of
                 None \<Rightarrow> None
               | Some hasNumeric \<Rightarrow>
                   if \<not> hasNumeric then None
                   else Some \<lparr>key = k, label = prettyKey k, credit = parseCredit k\<rparr>))"

definition extractSubjectFields :: "row list \<Rightarrow> string list \<Rightarrow> FieldDescriptor list" where
  "extractSubjectFields rows textFields =
     (case rows of
        [] \<Rightarrow> []
      | sample # _ \<Rightarrow>
          List.map_filter (subjectOf rows (set (map toLowerCase textFields)))
            (keysOf sample))"

subsection \<open>The selections of \<open>App\<close>\<close>

definition idCandidates :: "string list" where
  "idCandidates =
     [''roll'', ''reg'', ''registration'', ''enrol'', ''enrollment'', ''admission'', ''id'']"

text \<open>\<open>sample ? Object.keys(sample) : []\<close>, where \<open>sample\<close> is \<open>rows[0]\<close>\<close>

definition sampleKeys :: "row list \<Rightarrow> string list" where
  "sampleKeys rows = (case rows of [] \<Rightarrow> [] | sample # _ \<Rightarrow> keysOf sample)"

text \<open>\<open>[...textFields, ...keys.filter((k) => !textFields.includes(k))]\<close>\<close>

definition orderedKeys :: "row list \<Rightarrow> string list \<Rightarrow> string list" where
  "orderedKeys rows textFields =
     textFields @ filter (\<lambda>k. k \<notin> set textFields) (sampleKeys rows)"

definition idField :: "row list \<Rightarrow> string list \<Rightarrow> string option" where
  "idField rows textFields =
     (let ordered = orderedKeys rows textFields;
          lowerKeys = map toLowerCase ordered
      in case find (\<lambda>cand. list_ex (\<lambda>k. includesStr k cand) lowerKeys) idCandidates of
           None \<Rightarrow> None
         | Some matchedCandidate \<Rightarrow>
             find (\<lambda>k. includesStr (toLowerCase k) matchedCandidate) ordered)"

definition preferred :: "string list" where
  "preferred =
     [''cg'', ''cgpa'', ''gpa'', ''total'', ''aggregate'', ''overall'', ''sgpa'',
      ''percentage'', ''percent'', ''score'']"

fun findIndex :: "('a \<Rightarrow> bool) \<Rightarrow> 'a list \<Rightarrow> nat option" where
  "findIndex P [] = None"
| "findIndex P (x # xs) = (if P x then Some 0 else map_option Suc (findIndex P xs))"

definition primaryNumericField :: "string list \<Rightarrow> FieldDescriptor list \<Rightarrow> string option" where
  "primaryNumericField numericFields subjectFields =
     (if numericFields = [] then None
      else
        case findIndex (\<lambda>f. list_ex (\<lambda>p. includesStr f p) preferred)
               (map toLowerCase numericFields) of
          Some idx \<Rightarrow> Some (numericFields ! idx)
        | None \<Rightarrow>
            (case subjectFields of
               s # _ \<Rightarrow> Some (key s)
             | [] \<Rightarrow> Some (hd numericFields)))"

text \<open>The memoised values of \<open>App\<close>, as functions of the loaded rows.\<close>

definition appTextFields :: "row list \<Rightarrow> string list" where
  "appTextFields rows = detectTextFields rows"

definition appNumericFields :: "row list \<Rightarrow> string list" where
  "appNumericFields rows = detectNumericFields rows"

definition appSubjectFields :: "row list \<Rightarrow> FieldDescriptor list" where
  "appSubjectFields rows = extractSubjectFields rows (appTextFields rows)"

definition appIdField :: "row list \<Rightarrow> string option" where
  "appIdField rows = idField rows (appTextFields rows)"

definition appPrimaryNumericField :: "row list \<Rightarrow> string option" where
  "appPrimaryNumericField rows =
     primaryNumericField (appNumericFields rows) (appSubjectFields rows)"

subsection \<open>Aggregates\<close>





datatype error = TypeError

record HistogramBin =
  range_label :: "int \<times> int"
  count :: nat


text \<open>
  The body of \<open>values.forEach\<close> up to the index: the floor, then the two clamps in
  the order of the source.
\<close>

definition binIndex :: "rat \<Rightarrow> rat \<Rightarrow> nat \<Rightarrow> rat \<Rightarrow> int" where
  "binIndex mn mx bins v =
     (let idx = \<lfloor>((v - mn) / (mx - mn)) * of_nat bins\<rfloor>;
          idx1 = (if int bins \<le> idx then int bins - 1 else idx);
          idx2 = (if idx1 < 0 then 0 else idx1)
      in idx2)"

text \<open>
  \<open>data[idx].count += 1\<close> for each value; \<open>data[idx]\<close> is \<open>undefined\<close> past the end of
  the array, and reading \<open>count\<close> from it throws.
\<close>

fun countValues ::
  "rat \<Rightarrow> rat \<Rightarrow> nat \<Rightarrow> HistogramBin list \<Rightarrow> rat list \<Rightarrow> error + HistogramBin list" where
  "countValues mn mx bins data [] = Inr data"
| "countValues mn mx bins data (v # vs) =
     (let i = nat (binIndex mn mx bins v)
      in if i < length data
         then countValues mn mx bins (data[i := (data ! i)\<lparr>count := count (data ! i) + 1\<rparr>]) vs
         else Inl TypeError)"



text \<open>
  \<open>Number(num.toFixed(2))\<close>: two decimals, a tie away from zero; from \<open>1e21\<close> on
  \<open>toFixed\<close> prints the number itself.
\<close>

definition toFixed2 :: "rat \<Rightarrow> rat" where
  "toFixed2 x =
     (if 10 ^ 21 \<le> \<bar>x\<bar> then x
      else sgn x * of_int \<lfloor>\<bar>x\<bar> * 100 + 1 / 2\<rfloor> / 100)"

text \<open>
  A row of the chart is an object: the list of its properties, \<open>gpa\<close> and one per
  metric key. The \<open>Map\<close> of the source is keyed by the printed bucket value; printing
  is one-to-one on finite numbers, so the model keys it by the number.
\<close>

type_synonym chartRow = "(string \<times> rat) list"

fun setProp :: "'k \<Rightarrow> 'v \<Rightarrow> ('k \<times> 'v) list \<Rightarrow> ('k \<times> 'v) list" where
  "setProp k v [] = [(k, v)]"
| "setProp k v (p # ps) = (if fst p = k then (k, v) # ps else p # setProp k v ps)"

text \<open>\<open>bin[k] || 0\<close>: a property that is missing, or 0, reads as 0.\<close>

definition propOr0 :: "chartRow \<Rightarrow> string \<Rightarrow> rat" where
  "propOr0 bin k = (case map_of bin k of None \<Rightarrow> 0 | Some c \<Rightarrow> c)"

text \<open>The body of the inner \<open>rows.forEach\<close>.\<close>

definition countRow :: "string \<Rightarrow> row \<Rightarrow> (rat \<times> chartRow) list \<Rightarrow> (rat \<times> chartRow) list" where
  "countRow metricKey r bins =
     (case toNum (getCell r metricKey) of
        Fin num \<Rightarrow>
          (let rounded = toFixed2 num;
               bin = (case map_of bins rounded of
                        None \<Rightarrow> [(''gpa'', rounded)]
                      | Some b \<Rightarrow> b)
           in setProp rounded (setProp metricKey (propOr0 bin metricKey + 1) bin) bins)
      | _ \<Rightarrow> bins)"

text \<open>
  The outer and the inner \<open>forEach\<close> fill the \<open>Map\<close>; its values are then sorted with
  the comparator \<open>a.gpa - b.gpa\<close>, by a stable sort.
\<close>

definition buildGpaCountData :: "row list \<Rightarrow> string list \<Rightarrow> chartRow list" where
  "buildGpaCountData rows metrics =
     (if rows = [] \<or> metrics = [] then []
      else sort_key (\<lambda>bin. propOr0 bin ''gpa'')
             (map snd (fold (\<lambda>metricKey. fold (countRow metricKey) rows) metrics [])))"

subsection \<open>The credit patterns in words\<close>

text \<open>
  What the two regular expressions look for, stated on the header itself: a number
  is a run of digits, optionally followed by a dot and another run of digits; it is
  parenthesised when it stands between \<open>(\<close> and \<open>)\<close>, and trailing when only white
  space follows it.
\<close>

definition isDecimalText :: "string \<Rightarrow> bool" where
  "isDecimalText g =
     (let ds = takeWhile isDigit g; r = dropWhile isDigit g
      in ds \<noteq> [] \<and> (r = [] \<or> (hd r = CHR ''.'' \<and> tl r \<noteq> [] \<and> list_all isDigit (tl r))))"

definition hasParenNumber :: "string \<Rightarrow> string \<Rightarrow> bool" where
  "hasParenNumber k g = (isDecimalText g \<and> (\<exists>pre post. k = pre @ ''('' @ g @ '')'' @ post))"

definition hasTrailingNumber :: "string \<Rightarrow> string \<Rightarrow> bool" where
  "hasTrailingNumber k g =
     (isDecimalText g \<and> (\<exists>pre ws. k = pre @ g @ ws \<and> list_all isSpace ws))"

subsection \<open>Example datasets\<close>

text \<open>A column whose second value is not a number.\<close>

definition mixedColumnRows :: "row list" where
  "mixedColumnRows =
     [[(''Name'', Str ''A''), (''Roll'', Str ''1''), (''Math'', Str ''80'')],
      [(''Name'', Str ''B''), (''Roll'', Str ''2''), (''Math'', Str ''N/A'')]]"

text \<open>Two subject columns whose headers carry a credit.\<close>

definition creditRows :: "row list" where
  "creditRows = [[(''Physics (3.0) Lab 2'', Num (Fin 70)), (''Chemistry 3'', Num (Fin 80))]]"

text \<open>A sheet with a name, a registration number, a CGPA and one subject.\<close>

definition scenarioRows :: "row list" where
  "scenarioRows =
     [[(''Name'', Str ''Alice''), (''Reg'', Str ''2024001''), (''CGPA'', Num (Fin (367 / 100))),
       (''Physics_1'', Num (Fin 78)), (''Physics_1_Credit'', Str ''(3)'')],
      [(''Name'', Str ''Bob''), (''Reg'', Str ''2024002''), (''CGPA'', Num (Fin (367 / 100))),
       (''Physics_1'', Num (Fin 65))]]"

subsection \<open>The chart data in words\<close>

text \<open>
  The bucket of a row under a metric is its finite coerced value rounded to two
  decimals; the contributions of a metric to a bucket are the rows that fall in it.
\<close>

definition bucketOf :: "row \<Rightarrow> string \<Rightarrow> rat option" where
  "bucketOf r m = (case toNum (getCell r m) of Fin q \<Rightarrow> Some (toFixed2 q) | _ \<Rightarrow> None)"

definition contributions :: "row list \<Rightarrow> string \<Rightarrow> rat \<Rightarrow> nat" where
  "contributions rows m b = length (filter (\<lambda>r. bucketOf r m = Some b) rows)"

text \<open>
  What holds of the \<open>Map\<close> while it is filled, when \<open>cnt b m\<close> is the number of
  increments made so far for the bucket \<open>b\<close> and the metric \<open>m\<close>: one entry per
  bucket that was incremented, which holds the bucket value under \<open>gpa\<close> and, for
  every other key, the number of increments when there are any.
\<close>

definition binsInv :: "(rat \<times> chartRow) list \<Rightarrow> (rat \<Rightarrow> string \<Rightarrow> nat) \<Rightarrow> bool" where
  "binsInv bins cnt =
     (distinct (map fst bins) \<and>
      (\<forall>b. case map_of bins b of
             None \<Rightarrow> \<forall>m. cnt b m = 0
           | Some bin \<Rightarrow>
               map_of bin ''gpa'' = Some b \<and> (\<exists>m. 0 < cnt b m) \<and>
               (\<forall>m. m \<noteq> ''gpa'' \<longrightarrow>
                  map_of bin m = (if cnt b m = 0 then None else Some (of_nat (cnt b m))))))"

section \<open>Properties\<close>

subsection \<open>Auxiliary facts\<close>

lemmas char_defs = isUpper_def isLower_def isDigit_def isSpace_def isWord_def lowerChar_def
  upperChar_def toLowerCase_def trim_def

lemmas parse_defs = parseFloat_def Let_def digitsVal_def exponentPart_def scale10_def
  fromDecimal_def

lemmas row_defs = keysOf_def getCell_def

lemmas subject_defs = extractSubjectFields_def subjectOf_def idLike_def aggregateLike_def
  parseCredit_def parenAt_def trailingAt_def decimalAt_def prettyKey_def

lemma set_map_filter_eq:
  "set (List.map_filter f xs) = {y. \<exists>x \<in> set xs. f x = Some y}"
  by (induction xs) (auto split: option.splits)

lemma scanColumn_eq:
  "scanColumn rows k h =
     (if \<exists>r \<in> set rows. \<not> isEmptyCell (getCell r k) \<and> \<not> isFinite (toNum (getCell r k))
      then None
      else Some (h \<or> (\<exists>r \<in> set rows. \<not> isEmptyCell (getCell r k))))"
  by (induction rows arbitrary: h) auto

lemma subjectOf_Some:
  "subjectOf rows ts k = Some d \<Longrightarrow>
     key d = k \<and> label d = prettyKey k \<and> credit d = parseCredit k \<and>
     toLowerCase k \<notin> ts \<and> scanColumn rows k False = Some True"
  by (auto simp: subjectOf_def Let_def split: if_splits option.splits)

lemma extract_mem:
  "d \<in> set (extractSubjectFields rows tf) \<Longrightarrow>
     rows \<noteq> [] \<and> key d \<in> set (keysOf (hd rows)) \<and>
     subjectOf rows (set (map toLowerCase tf)) (key d) = Some d"
  by (auto simp: extractSubjectFields_def set_map_filter_eq split: list.splits
      dest: subjectOf_Some)

subsection \<open>Text fields, numeric fields and subjects\<close>

text \<open>
  C10. The two first-row classifications overlap: a field whose first value is the
  string \<open>3.5\<close> is a text field and a numeric field at once. And a text field is
  never a subject, whatever its values are.
\<close>

theorem text_fields_overlap_numeric_and_are_no_subjects:
  "(\<exists>rows k. getCell (hd rows) k = Str ''3.5'' \<and> k \<in> set (detectTextFields rows) \<and>
       k \<in> set (detectNumericFields rows)) \<and>
   (k \<in> set (detectTextFields rows) \<longrightarrow>
      k \<notin> key ` set (extractSubjectFields rows (detectTextFields rows)))"
proof
  let ?rows = "[[(''CGPA'', Str ''3.5'')]]"
  have "getCell (hd ?rows) ''CGPA'' = Str ''3.5''"
    by (simp add: row_defs)
  moreover have "''CGPA'' \<in> set (detectTextFields ?rows)"
    by (simp add: detectTextFields_def row_defs char_defs)
  moreover have "''CGPA'' \<in> set (detectNumericFields ?rows)"
    by (simp add: detectNumericFields_def row_defs char_defs parse_defs)
  ultimately show "\<exists>rows k. getCell (hd rows) k = Str ''3.5'' \<and>
      k \<in> set (detectTextFields rows) \<and> k \<in> set (detectNumericFields rows)"
    by blast
next
  show "k \<in> set (detectTextFields rows) \<longrightarrow>
      k \<notin> key ` set (extractSubjectFields rows (detectTextFields rows))"
  proof (intro impI notI)
    assume k: "k \<in> set (detectTextFields rows)"
      and "k \<in> key ` set (extractSubjectFields rows (detectTextFields rows))"
    then obtain d where d: "d \<in> set (extractSubjectFields rows (detectTextFields rows))"
      and kd: "key d = k"
      by auto
    from extract_mem [OF d] kd
    have "subjectOf rows (set (map toLowerCase (detectTextFields rows))) k = Some d"
      by simp
    then have "toLowerCase k \<notin> set (map toLowerCase (detectTextFields rows))"
      by (simp add: subjectOf_Some)
    with k show False by simp
  qed
qed

theorem text_fields_overlap_numeric_and_are_no_subjects_witness:
  "''Math'' \<in> set (detectTextFields mixedColumnRows) \<and>
   ''Math'' \<in> set (detectNumericFields mixedColumnRows) \<and>
   ''Math'' \<notin> key ` set (extractSubjectFields mixedColumnRows
                           (detectTextFields mixedColumnRows))"
proof -
  have t: "''Math'' \<in> set (detectTextFields mixedColumnRows)"
    by (simp add: mixedColumnRows_def detectTextFields_def row_defs char_defs)
  have n: "''Math'' \<in> set (detectNumericFields mixedColumnRows)"
    by (simp add: mixedColumnRows_def detectNumericFields_def row_defs char_defs parse_defs)
  from t n text_fields_overlap_numeric_and_are_no_subjects
         [where k = "''Math''" and rows = mixedColumnRows]
  show ?thesis by blast
qed

text \<open>
  C4. A column is no subject when some row holds a value that is neither empty nor
  a finite number, and when no row holds a finite number at all. The column \<open>Math\<close>
  of the example is numeric in the first row, not numeric in the second, and is no
  subject, whatever the text fields are.
\<close>

theorem mixed_or_empty_column_is_no_subject:
  "((\<exists>r \<in> set rows. \<not> isEmptyCell (getCell r k) \<and> \<not> isFinite (toNum (getCell r k))) \<or>
    (\<forall>r \<in> set rows. isEmptyCell (getCell r k) \<or> \<not> isFinite (toNum (getCell r k)))
      \<longrightarrow> k \<notin> key ` set (extractSubjectFields rows tf)) \<and>
   isFinite (toNum (getCell (hd mixedColumnRows) ''Math'')) \<and>
   ''Math'' \<notin> key ` set (extractSubjectFields mixedColumnRows tf')"
proof -
  have general: "k \<notin> key ` set (extractSubjectFields rows tf)"
    if bad: "(\<exists>r \<in> set rows. \<not> isEmptyCell (getCell r k) \<and> \<not> isFinite (toNum (getCell r k))) \<or>
      (\<forall>r \<in> set rows. isEmptyCell (getCell r k) \<or> \<not> isFinite (toNum (getCell r k)))"
    for rows k tf
  proof
    assume "k \<in> key ` set (extractSubjectFields rows tf)"
    then obtain d where d: "d \<in> set (extractSubjectFields rows tf)" and kd: "key d = k"
      by auto
    from extract_mem [OF d] kd have "scanColumn rows k False = Some True"
      by (auto dest: subjectOf_Some)
    then have "\<not> (\<exists>r \<in> set rows. \<not> isEmptyCell (getCell r k) \<and> \<not> isFinite (toNum (getCell r k)))"
      and "\<exists>r \<in> set rows. \<not> isEmptyCell (getCell r k)"
      by (auto simp: scanColumn_eq split: if_splits)
    with bad show False by blast
  qed
  have first: "isFinite (toNum (getCell (hd mixedColumnRows) ''Math''))"
    by (simp add: mixedColumnRows_def row_defs char_defs parse_defs)
  have "\<exists>r \<in> set mixedColumnRows. \<not> isEmptyCell (getCell r ''Math'') \<and>
          \<not> isFinite (toNum (getCell r ''Math''))"
    by (simp add: mixedColumnRows_def row_defs char_defs parse_defs)
  then have "''Math'' \<notin> key ` set (extractSubjectFields mixedColumnRows tf')"
    using general by blast
  with general first show ?thesis by blast
qed

theorem mixed_or_empty_column_is_no_subject_witness:
  "getCell (mixedColumnRows ! 1) ''Math'' = Str ''N/A'' \<and>
   toNum (Str ''N/A'') = NaN \<and>
   ''Math'' \<notin> key ` set (extractSubjectFields mixedColumnRows [])"
proof -
  have c: "getCell (mixedColumnRows ! 1) ''Math'' = Str ''N/A''"
    by (simp add: mixedColumnRows_def row_defs)
  have n: "toNum (Str ''N/A'') = NaN"
    by (simp add: char_defs parse_defs)
  have "mixedColumnRows ! 1 \<in> set mixedColumnRows"
    by (simp add: mixedColumnRows_def)
  with c n have "\<exists>r \<in> set mixedColumnRows. \<not> isEmptyCell (getCell r ''Math'') \<and>
          \<not> isFinite (toNum (getCell r ''Math''))"
    by (intro bexI [of _ "mixedColumnRows ! 1"]) simp_all
  with mixed_or_empty_column_is_no_subject
         [where rows = mixedColumnRows and k = "''Math''" and tf = "[]"] c n
  show ?thesis by blast
qed

subsection \<open>Numbers in a header\<close>

lemma digit_not_space: "isDigit c \<Longrightarrow> \<not> isSpace c"
  by (auto simp: isDigit_def isSpace_def)

lemma digit_not_special:
  "isDigit c \<Longrightarrow> c \<noteq> CHR ''-'' \<and> c \<noteq> CHR ''+'' \<and> c \<noteq> CHR ''I'' \<and> c \<noteq> CHR ''.''"
  by (auto simp: isDigit_def)

lemma space_not_special: "isSpace c \<Longrightarrow> \<not> isDigit c \<and> c \<noteq> CHR ''.''"
  by (auto simp: isDigit_def isSpace_def)

lemma not_digit_dot: "\<not> isDigit CHR ''.''"
  by (simp add: isDigit_def)

lemma not_digit_paren: "\<not> isDigit CHR '')''"
  by (simp add: isDigit_def)

lemma takeWhile_all: "list_all P ds \<Longrightarrow> takeWhile P ds = ds"
  by (induction ds) auto

lemma dropWhile_all: "list_all P ds \<Longrightarrow> dropWhile P ds = []"
  by (induction ds) auto

lemma list_all_takeWhile: "list_all P (takeWhile P xs)"
  by (induction xs) auto

lemma takeWhile_run:
  "list_all P ds \<Longrightarrow> rest = [] \<or> \<not> P (hd rest) \<Longrightarrow> takeWhile P (ds @ rest) = ds"
  by (induction ds) (auto simp: takeWhile_eq_Nil_iff)

lemma dropWhile_run:
  "list_all P ds \<Longrightarrow> rest = [] \<or> \<not> P (hd rest) \<Longrightarrow> dropWhile P (ds @ rest) = rest"
  by (induction ds) (auto simp: dropWhile_eq_self_iff)

text \<open>A decimal text is a run of digits, or two runs with a dot between.\<close>

lemma isDecimalText_cases:
  assumes "isDecimalText g"
  obtains (whole) "g \<noteq> []" "list_all isDigit g"
  | (fraction) ds fs where "ds \<noteq> []" "fs \<noteq> []" "list_all isDigit ds" "list_all isDigit fs"
      "g = ds @ CHR ''.'' # fs"
proof (cases "dropWhile isDigit g = []")
  case True
  then have "takeWhile isDigit g = g"
    by (metis append_Nil2 takeWhile_dropWhile_id)
  with assms whole show ?thesis
    by (metis isDecimalText_def list_all_takeWhile)
next
  case False
  let ?ds = "takeWhile isDigit g" and ?r = "dropWhile isDigit g"
  from assms False have ne: "?ds \<noteq> []" and dot: "hd ?r = CHR ''.''" and fs: "tl ?r \<noteq> []"
    "list_all isDigit (tl ?r)"
    by (auto simp: isDecimalText_def Let_def)
  from False dot have "?r = CHR ''.'' # tl ?r"
    by (cases ?r) auto
  then have "g = ?ds @ CHR ''.'' # tl ?r"
    by (metis takeWhile_dropWhile_id)
  with ne fs list_all_takeWhile [of isDigit g] fraction show ?thesis
    by blast
qed

lemma isDecimalText_whole: "ds \<noteq> [] \<Longrightarrow> list_all isDigit ds \<Longrightarrow> isDecimalText ds"
  by (simp add: isDecimalText_def takeWhile_all dropWhile_all)

lemma isDecimalText_fraction:
  "ds \<noteq> [] \<Longrightarrow> fs \<noteq> [] \<Longrightarrow> list_all isDigit ds \<Longrightarrow> list_all isDigit fs \<Longrightarrow>
     isDecimalText (ds @ CHR ''.'' # fs)"
  by (simp add: isDecimalText_def takeWhile_run dropWhile_run not_digit_dot)

lemma decimalAt_Some:
  assumes "decimalAt s = Some (g, rest)"
  shows "s = g @ rest \<and> isDecimalText g"
proof -
  let ?ds = "takeWhile isDigit s" and ?r1 = "dropWhile isDigit s"
  let ?fs = "takeWhile isDigit (tl ?r1)"
  show ?thesis
  proof (cases "?r1 \<noteq> [] \<and> hd ?r1 = CHR ''.'' \<and> ?fs \<noteq> []")
    case True
    then have r1: "?r1 = CHR ''.'' # ?fs @ dropWhile isDigit (tl ?r1)"
      by (cases ?r1) auto
    from assms True have g: "g = ?ds @ CHR ''.'' # ?fs"
      and rest: "rest = dropWhile isDigit (tl ?r1)" and ne: "?ds \<noteq> []"
      by (auto simp: decimalAt_def Let_def split: if_splits)
    have "s = ?ds @ ?r1" by simp
    then have "s = g @ rest"
      using r1 unfolding g rest by (metis append.assoc append_Cons)
    moreover have "isDecimalText g"
      unfolding g using True ne by (intro isDecimalText_fraction) (simp_all add: list_all_takeWhile)
    ultimately show ?thesis by simp
  next
    case False
    with assms have g: "g = ?ds" and rest: "rest = ?r1" and ne: "?ds \<noteq> []"
      by (auto simp: decimalAt_def Let_def split: if_splits)
    then show ?thesis
      by (simp add: isDecimalText_whole list_all_takeWhile)
  qed
qed

lemma decimalAt_append:
  assumes "isDecimalText g" and "rest = [] \<or> (\<not> isDigit (hd rest) \<and> hd rest \<noteq> CHR ''.'')"
  shows "decimalAt (g @ rest) = Some (g, rest)"
  using assms(1)
proof (cases rule: isDecimalText_cases)
  case whole
  with assms(2) have "takeWhile isDigit (g @ rest) = g" "dropWhile isDigit (g @ rest) = rest"
    using takeWhile_run [of isDigit g rest] dropWhile_run [of isDigit g rest] by blast+
  with whole assms(2) show ?thesis
    by (auto simp: decimalAt_def)
next
  case (fraction ds fs)
  have 1: "takeWhile isDigit (ds @ CHR ''.'' # fs @ rest) = ds"
    and 2: "dropWhile isDigit (ds @ CHR ''.'' # fs @ rest) = CHR ''.'' # fs @ rest"
    using fraction by (simp_all add: takeWhile_run dropWhile_run not_digit_dot)
  have 3: "takeWhile isDigit (fs @ rest) = fs" and 4: "dropWhile isDigit (fs @ rest) = rest"
    using fraction assms(2) takeWhile_run [of isDigit fs rest] dropWhile_run [of isDigit fs rest]
    by blast+
  show ?thesis
    using fraction(1,2) unfolding fraction(5) by (simp add: decimalAt_def 1 2 3 4)
qed

lemma parenAt_Some:
  assumes "parenAt s = Some g"
  shows "\<exists>post. s = ''('' @ g @ '')'' @ post \<and> isDecimalText g"
proof -
  from assms obtain r where s: "s = CHR ''('' # r"
    by (cases s) (auto simp: parenAt_def split: if_splits)
  from assms s obtain g' rest where d: "decimalAt r = Some (g', rest)"
    by (auto simp: parenAt_def split: option.splits)
  then have ne: "takeWhile isDigit r \<noteq> []"
    by (auto simp: decimalAt_def Let_def split: if_splits)
  from decimalAt_Some [OF d] have r: "r = g' @ rest" and dec: "isDecimalText g'"
    by simp_all
  show ?thesis
  proof (cases "rest \<noteq> [] \<and> hd rest = CHR '')''")
    case True
    with assms s d have "g = g'" by (simp add: parenAt_def)
    moreover from True have "rest = CHR '')'' # tl rest" by (cases rest) auto
    ultimately show ?thesis
      using s r dec by (metis append_Cons append_Nil)
  next
    case False
    with assms s d have g: "g = takeWhile isDigit r"
      and p: "dropWhile isDigit r \<noteq> []" "hd (dropWhile isDigit r) = CHR '')''"
      by (auto simp: parenAt_def split: if_splits)
    then have "dropWhile isDigit r = CHR '')'' # tl (dropWhile isDigit r)"
      by (cases "dropWhile isDigit r") auto
    then have "r = g @ CHR '')'' # tl (dropWhile isDigit r)"
      unfolding g by (metis takeWhile_dropWhile_id)
    moreover have "isDecimalText g"
      unfolding g using ne by (simp add: isDecimalText_whole list_all_takeWhile)
    ultimately show ?thesis
      using s by (metis append_Cons append_Nil)
  qed
qed

lemma parenAt_complete:
  assumes "isDecimalText g"
  shows "parenAt (''('' @ g @ '')'' @ post) = Some g"
proof -
  have "decimalAt (g @ CHR '')'' # post) = Some (g, CHR '')'' # post)"
    using assms by (intro decimalAt_append) (simp_all add: not_digit_paren)
  then show ?thesis
    by (simp add: parenAt_def)
qed

lemma parenMatch_Some:
  "parenMatch s = Some g \<Longrightarrow>
     \<exists>pre post. s = pre @ ''('' @ g @ '')'' @ post \<and> isDecimalText g"
proof (induction s)
  case Nil
  then show ?case by simp
next
  case (Cons c r)
  show ?case
  proof (cases "parenAt (c # r)")
    case None
    with Cons obtain pre post where "r = pre @ ''('' @ g @ '')'' @ post" "isDecimalText g"
      by auto
    then have "c # r = (c # pre) @ ''('' @ g @ '')'' @ post \<and> isDecimalText g"
      by simp
    then show ?thesis by blast
  next
    case (Some g')
    with Cons.prems have "g' = g" by simp
    with parenAt_Some [OF Some] obtain post where
      "c # r = [] @ ''('' @ g @ '')'' @ post \<and> isDecimalText g"
      by auto
    then show ?thesis by blast
  qed
qed

lemma parenMatch_complete:
  "isDecimalText g \<Longrightarrow> parenMatch (pre @ ''('' @ g @ '')'' @ post) \<noteq> None"
proof (induction pre)
  case Nil
  from parenAt_complete [OF Nil, of post] show ?case by simp
next
  case (Cons c pre)
  then show ?case by (simp split: option.splits)
qed

lemma trailingAt_Some:
  assumes "trailingAt s = Some g"
  shows "\<exists>ws. s = g @ ws \<and> list_all isSpace ws \<and> isDecimalText g"
proof -
  from assms obtain g' rest where d: "decimalAt s = Some (g', rest)"
    by (auto simp: trailingAt_def split: option.splits)
  then have ne: "takeWhile isDigit s \<noteq> []"
    by (auto simp: decimalAt_def Let_def split: if_splits)
  from decimalAt_Some [OF d] have s: "s = g' @ rest" and dec: "isDecimalText g'"
    by simp_all
  show ?thesis
  proof (cases "list_all isSpace rest")
    case True
    with assms d have "g = g'" by (simp add: trailingAt_def)
    with s dec True show ?thesis by blast
  next
    case False
    with assms d have g: "g = takeWhile isDigit s"
      and ws: "list_all isSpace (dropWhile isDigit s)"
      by (auto simp: trailingAt_def split: if_splits)
    have "s = g @ dropWhile isDigit s"
      unfolding g by simp
    moreover have "isDecimalText g"
      unfolding g using ne by (simp add: isDecimalText_whole list_all_takeWhile)
    ultimately show ?thesis using ws by blast
  qed
qed

lemma trailingAt_complete:
  assumes "isDecimalText g" "list_all isSpace ws"
  shows "trailingAt (g @ ws) = Some g"
proof -
  have "ws = [] \<or> (\<not> isDigit (hd ws) \<and> hd ws \<noteq> CHR ''.'')"
    using assms(2) space_not_special by (cases ws) auto
  then have "decimalAt (g @ ws) = Some (g, ws)"
    using assms(1) by (rule decimalAt_append [rotated])
  with assms(2) show ?thesis
    by (simp add: trailingAt_def)
qed

lemma trailingMatch_Some:
  "trailingMatch s = Some g \<Longrightarrow>
     \<exists>pre ws. s = pre @ g @ ws \<and> list_all isSpace ws \<and> isDecimalText g"
proof (induction s)
  case Nil
  then show ?case by simp
next
  case (Cons c r)
  show ?case
  proof (cases "trailingAt (c # r)")
    case None
    with Cons obtain pre ws where "r = pre @ g @ ws" "list_all isSpace ws" "isDecimalText g"
      by auto
    then have "c # r = (c # pre) @ g @ ws \<and> list_all isSpace ws \<and> isDecimalText g"
      by simp
    then show ?thesis by blast
  next
    case (Some g')
    with Cons.prems have "g' = g" by simp
    with trailingAt_Some [OF Some] obtain ws where
      "c # r = [] @ g @ ws \<and> list_all isSpace ws \<and> isDecimalText g"
      by auto
    then show ?thesis by blast
  qed
qed

lemma trailingMatch_complete:
  assumes "isDecimalText g" "list_all isSpace ws"
  shows "trailingMatch (pre @ g @ ws) \<noteq> None"
proof (induction pre)
  case Nil
  from assms(1) have "g \<noteq> []"
    by (auto simp: isDecimalText_def)
  then obtain c r where "g @ ws = c # r"
    by (cases g) auto
  with trailingAt_complete [OF assms] show ?case by simp
next
  case (Cons c pre)
  then show ?case by (simp split: option.splits)
qed


lemma parseFloat_digits:
  assumes "ds \<noteq> []" "list_all isDigit ds"
  shows "parseFloat ds = fromDecimal (of_nat (digitsVal ds))"
proof -
  from assms obtain c r where ds: "ds = c # r" and c: "isDigit c"
    by (cases ds) auto
  have 1: "dropWhile isSpace ds = ds"
    using c by (simp add: ds digit_not_space)
  have 2: "stripSign ds = (False, ds)"
    using digit_not_special [OF c] by (simp add: ds)
  have 3: "\<not> prefix ''Infinity'' ds"
    using digit_not_special [OF c] by (auto simp: ds)
  show ?thesis
    using assms 3
    by (simp add: parseFloat_def 1 2 takeWhile_all dropWhile_all exponentPart_def scale10_def)
qed

lemma parseFloat_fraction:
  assumes "ds \<noteq> []" "list_all isDigit ds" "list_all isDigit fs"
  shows "parseFloat (ds @ CHR ''.'' # fs) =
           fromDecimal (of_nat (digitsVal (ds @ fs)) / 10 ^ length fs)"
proof -
  from assms obtain c r where ds: "ds = c # r" and c: "isDigit c"
    by (cases ds) auto
  have 1: "dropWhile isSpace (ds @ CHR ''.'' # fs) = ds @ CHR ''.'' # fs"
    using c by (simp add: ds digit_not_space)
  have 2: "stripSign (ds @ CHR ''.'' # fs) = (False, ds @ CHR ''.'' # fs)"
    using digit_not_special [OF c] by (simp add: ds)
  have 3: "\<not> prefix ''Infinity'' (ds @ CHR ''.'' # fs)"
    using digit_not_special [OF c] by (auto simp: ds)
  have 4: "takeWhile isDigit (ds @ CHR ''.'' # fs) = ds"
    "dropWhile isDigit (ds @ CHR ''.'' # fs) = CHR ''.'' # fs"
    using assms by (simp_all add: takeWhile_run dropWhile_run not_digit_dot)
  show ?thesis
    using assms 3
    by (simp add: parseFloat_def 1 2 4 takeWhile_all dropWhile_all exponentPart_def scale10_def)
qed

lemma fromDecimal_nonneg:
  "0 \<le> q \<Longrightarrow> fromDecimal q = PosInf \<or> fromDecimal q = Fin q"
  by (simp add: fromDecimal_def)

lemma parseFloat_decimal_nonneg:
  assumes "isDecimalText g"
  shows "parseFloat g = PosInf \<or> (\<exists>q. parseFloat g = Fin q \<and> 0 \<le> q)"
  using assms
proof (cases rule: isDecimalText_cases)
  case whole
  then show ?thesis
    using parseFloat_digits [of g] fromDecimal_nonneg [of "of_nat (digitsVal g)"]
    by auto
next
  case (fraction ds fs)
  then show ?thesis
    using parseFloat_fraction [of ds fs]
      fromDecimal_nonneg [of "of_nat (digitsVal (ds @ fs)) / 10 ^ length fs"]
    by auto
qed

lemma parseCredit_nonneg:
  assumes "parseCredit k = Some c"
  shows "c = PosInf \<or> (\<exists>q. c = Fin q \<and> 0 \<le> q)"
proof (cases "parenMatch k")
  case (Some g)
  with assms have c: "c = parseFloat g" by (simp add: parseCredit_def)
  from parenMatch_Some [OF Some] show ?thesis
    unfolding c using parseFloat_decimal_nonneg by blast
next
  case None
  with assms obtain g where g: "trailingMatch k = Some g" and c: "c = parseFloat g"
    by (auto simp: parseCredit_def split: option.splits)
  from trailingMatch_Some [OF g] show ?thesis
    unfolding c using parseFloat_decimal_nonneg by blast
qed

lemma hasParenNumber_iff: "(\<exists>g. hasParenNumber k g) \<longleftrightarrow> parenMatch k \<noteq> None"
proof
  assume "\<exists>g. hasParenNumber k g"
  then obtain g pre post where "isDecimalText g" "k = pre @ ''('' @ g @ '')'' @ post"
    unfolding hasParenNumber_def by blast
  then show "parenMatch k \<noteq> None"
    using parenMatch_complete by blast
next
  assume "parenMatch k \<noteq> None"
  then obtain g where "parenMatch k = Some g" by auto
  from parenMatch_Some [OF this] show "\<exists>g. hasParenNumber k g"
    by (auto simp: hasParenNumber_def)
qed

lemma hasTrailingNumber_iff: "(\<exists>g. hasTrailingNumber k g) \<longleftrightarrow> trailingMatch k \<noteq> None"
proof
  assume "\<exists>g. hasTrailingNumber k g"
  then obtain g pre ws where "isDecimalText g" "list_all isSpace ws" "k = pre @ g @ ws"
    unfolding hasTrailingNumber_def by blast
  then show "trailingMatch k \<noteq> None"
    using trailingMatch_complete by blast
next
  assume "trailingMatch k \<noteq> None"
  then obtain g where "trailingMatch k = Some g" by auto
  from trailingMatch_Some [OF this] show "\<exists>g. hasTrailingNumber k g"
    by (auto simp: hasTrailingNumber_def)
qed

lemma parseCredit_spec:
  "((\<exists>g. hasParenNumber k g) \<longrightarrow>
      (\<exists>g. hasParenNumber k g \<and> parseCredit k = Some (parseFloat g))) \<and>
   (\<not> (\<exists>g. hasParenNumber k g) \<and> (\<exists>g. hasTrailingNumber k g) \<longrightarrow>
      (\<exists>g. hasTrailingNumber k g \<and> parseCredit k = Some (parseFloat g))) \<and>
   (\<not> (\<exists>g. hasParenNumber k g) \<and> \<not> (\<exists>g. hasTrailingNumber k g) \<longrightarrow>
      parseCredit k = None)"
proof (intro conjI impI)
  assume "\<exists>g. hasParenNumber k g"
  then obtain g where g: "parenMatch k = Some g"
    by (auto simp: hasParenNumber_iff)
  from parenMatch_Some [OF g] have "hasParenNumber k g"
    by (auto simp: hasParenNumber_def)
  with g show "\<exists>g. hasParenNumber k g \<and> parseCredit k = Some (parseFloat g)"
    by (auto simp: parseCredit_def)
next
  assume "\<not> (\<exists>g. hasParenNumber k g) \<and> (\<exists>g. hasTrailingNumber k g)"
  then obtain g where n: "parenMatch k = None" and g: "trailingMatch k = Some g"
    by (auto simp: hasParenNumber_iff hasTrailingNumber_iff)
  from trailingMatch_Some [OF g] have "hasTrailingNumber k g"
    by (auto simp: hasTrailingNumber_def)
  with n g show "\<exists>g. hasTrailingNumber k g \<and> parseCredit k = Some (parseFloat g)"
    by (auto simp: parseCredit_def)
next
  assume "\<not> (\<exists>g. hasParenNumber k g) \<and> \<not> (\<exists>g. hasTrailingNumber k g)"
  then show "parseCredit k = None"
    by (simp add: hasParenNumber_iff hasTrailingNumber_iff parseCredit_def)
qed

subsection \<open>Credits\<close>

text \<open>
  C5. The credit of a subject comes from its header. When the header holds a
  parenthesised number, the credit is a parenthesised number of the header, whether
  or not a number trails; when it holds none and a number trails, the credit is a
  trailing number; when it holds neither, there is no credit. The header
  \<open>Physics (3.0) Lab 2\<close> has credit 3 and the header \<open>Chemistry 3\<close> has credit 3.
\<close>

theorem credit_prefers_parenthesised_number:
  "(d \<in> set (extractSubjectFields rows tf) \<longrightarrow>
      ((\<exists>g. hasParenNumber (key d) g) \<longrightarrow>
         (\<exists>g. hasParenNumber (key d) g \<and> credit d = Some (parseFloat g))) \<and>
      (\<not> (\<exists>g. hasParenNumber (key d) g) \<and> (\<exists>g. hasTrailingNumber (key d) g) \<longrightarrow>
         (\<exists>g. hasTrailingNumber (key d) g \<and> credit d = Some (parseFloat g))) \<and>
      (\<not> (\<exists>g. hasParenNumber (key d) g) \<and> \<not> (\<exists>g. hasTrailingNumber (key d) g) \<longrightarrow>
         credit d = None)) \<and>
   map (\<lambda>d. (key d, credit d)) (extractSubjectFields creditRows []) =
     [(''Physics (3.0) Lab 2'', Some (Fin 3)), (''Chemistry 3'', Some (Fin 3))]"
proof
  show "d \<in> set (extractSubjectFields rows tf) \<longrightarrow>
      ((\<exists>g. hasParenNumber (key d) g) \<longrightarrow>
         (\<exists>g. hasParenNumber (key d) g \<and> credit d = Some (parseFloat g))) \<and>
      (\<not> (\<exists>g. hasParenNumber (key d) g) \<and> (\<exists>g. hasTrailingNumber (key d) g) \<longrightarrow>
         (\<exists>g. hasTrailingNumber (key d) g \<and> credit d = Some (parseFloat g))) \<and>
      (\<not> (\<exists>g. hasParenNumber (key d) g) \<and> \<not> (\<exists>g. hasTrailingNumber (key d) g) \<longrightarrow>
         credit d = None)"
  proof
    assume "d \<in> set (extractSubjectFields rows tf)"
    from extract_mem [OF this] have "credit d = parseCredit (key d)"
      by (auto dest: subjectOf_Some)
    then show "((\<exists>g. hasParenNumber (key d) g) \<longrightarrow>
         (\<exists>g. hasParenNumber (key d) g \<and> credit d = Some (parseFloat g))) \<and>
      (\<not> (\<exists>g. hasParenNumber (key d) g) \<and> (\<exists>g. hasTrailingNumber (key d) g) \<longrightarrow>
         (\<exists>g. hasTrailingNumber (key d) g \<and> credit d = Some (parseFloat g))) \<and>
      (\<not> (\<exists>g. hasParenNumber (key d) g) \<and> \<not> (\<exists>g. hasTrailingNumber (key d) g) \<longrightarrow>
         credit d = None)"
      using parseCredit_spec [of "key d"] by simp
  qed
next
  show "map (\<lambda>d. (key d, credit d)) (extractSubjectFields creditRows []) =
     [(''Physics (3.0) Lab 2'', Some (Fin 3)), (''Chemistry 3'', Some (Fin 3))]"
    by (simp add: creditRows_def subject_defs row_defs char_defs parse_defs)
qed

theorem credit_prefers_parenthesised_number_witness:
  "\<lparr>key = ''Physics (3.0) Lab 2'', label = ''Physics (3.0) Lab 2'', credit = Some (Fin 3)\<rparr>
     \<in> set (extractSubjectFields creditRows []) \<and>
   hasParenNumber ''Physics (3.0) Lab 2'' ''3.0'' \<and>
   hasTrailingNumber ''Physics (3.0) Lab 2'' ''2'' \<and>
   (\<exists>g. hasParenNumber ''Physics (3.0) Lab 2'' g \<and> Some (Fin 3) = Some (parseFloat g))"
proof -
  let ?d = "\<lparr>key = ''Physics (3.0) Lab 2'', label = ''Physics (3.0) Lab 2'',
             credit = Some (Fin 3)\<rparr>"
  have m: "?d \<in> set (extractSubjectFields creditRows [])"
    by (simp add: creditRows_def subject_defs row_defs char_defs parse_defs)
  have p: "hasParenNumber ''Physics (3.0) Lab 2'' ''3.0''"
    unfolding hasParenNumber_def
    by (intro conjI exI [of _ "''Physics ''"] exI [of _ "'' Lab 2''"])
       (simp_all add: isDecimalText_def char_defs)
  have t: "hasTrailingNumber ''Physics (3.0) Lab 2'' ''2''"
    unfolding hasTrailingNumber_def
    by (intro conjI exI [of _ "''Physics (3.0) Lab ''"] exI [of _ "[]"])
       (simp_all add: isDecimalText_def char_defs)
  from m p credit_prefers_parenthesised_number [of ?d creditRows "[]"]
  have "\<exists>g. hasParenNumber ''Physics (3.0) Lab 2'' g \<and> Some (Fin 3) = Some (parseFloat g)"
    by auto
  with m p t show ?thesis by blast
qed

text \<open>
  C6, as the code has it. A credit is read from a run of digits, so it is never
  negative and never \<open>NaN\<close>; it is 0 for a header such as \<open>Lab (0)\<close>, and it is
  \<open>Infinity\<close> when the digits exceed the range of a number.
\<close>

theorem credit_is_never_negative:
  "d \<in> set (extractSubjectFields rows tf) \<Longrightarrow> credit d = Some c \<Longrightarrow>
     c = PosInf \<or> (\<exists>q. c = Fin q \<and> 0 \<le> q)"
proof -
  assume "d \<in> set (extractSubjectFields rows tf)" and c: "credit d = Some c"
  from extract_mem [OF this(1)] have "credit d = parseCredit (key d)"
    by (auto dest: subjectOf_Some)
  with c show ?thesis
    using parseCredit_nonneg [of "key d" c] by simp
qed

theorem credit_is_never_negative_witness:
  "\<lparr>key = ''Chemistry 3'', label = ''Chemistry 3'', credit = Some (Fin 3)\<rparr>
     \<in> set (extractSubjectFields creditRows []) \<and>
   (Fin 3 = PosInf \<or> (\<exists>q. Fin 3 = Fin q \<and> 0 \<le> q))"
proof -
  let ?d = "\<lparr>key = ''Chemistry 3'', label = ''Chemistry 3'', credit = Some (Fin 3)\<rparr>"
  have m: "?d \<in> set (extractSubjectFields creditRows [])"
    by (simp add: creditRows_def subject_defs row_defs char_defs parse_defs)
  from m credit_is_never_negative [OF m, of "Fin 3"] show ?thesis
    by simp
qed

text \<open>
  The claim as written asks for a positive credit. The header \<open>Lab (0)\<close> has the
  credit 0.
\<close>

theorem credit_zero_counterexample:
  "extractSubjectFields [[(''Lab (0)'', Num (Fin 80))]] [] =
     [\<lparr>key = ''Lab (0)'', label = ''Lab (0)'', credit = Some (Fin 0)\<rparr>]"
  by (simp add: subject_defs row_defs char_defs parse_defs)

subsection \<open>The identifier field\<close>

lemma detectTextFields_subset: "set (detectTextFields rows) \<subseteq> set (sampleKeys rows)"
  by (auto simp: detectTextFields_def sampleKeys_def split: list.splits)

lemma set_orderedKeys:
  "set (orderedKeys rows (appTextFields rows)) = set (sampleKeys rows)"
  using detectTextFields_subset [of rows]
  by (auto simp: orderedKeys_def appTextFields_def)

lemma idField_None:
  assumes "\<forall>c \<in> set idCandidates. \<forall>k \<in> set (orderedKeys rows tf). \<not> includesStr (toLowerCase k) c"
  shows "idField rows tf = None"
proof -
  have "find (\<lambda>cand. list_ex (\<lambda>k. includesStr k cand) (map toLowerCase (orderedKeys rows tf)))
          idCandidates = None"
    using assms by (auto simp: find_None_iff list_ex_iff)
  then show ?thesis
    by (simp add: idField_def)
qed

lemma idField_Some:
  assumes i: "i < length idCandidates" and j: "j < length (orderedKeys rows tf)"
    and before: "\<forall>i' < i. \<forall>k \<in> set (orderedKeys rows tf).
                   \<not> includesStr (toLowerCase k) (idCandidates ! i')"
    and hit: "includesStr (toLowerCase (orderedKeys rows tf ! j)) (idCandidates ! i)"
    and first: "\<forall>j' < j. \<not> includesStr (toLowerCase (orderedKeys rows tf ! j')) (idCandidates ! i)"
  shows "idField rows tf = Some (orderedKeys rows tf ! j)"
proof -
  let ?ord = "orderedKeys rows tf"
  let ?P = "\<lambda>cand. list_ex (\<lambda>k. includesStr k cand) (map toLowerCase ?ord)"
  have "?P (idCandidates ! i)"
    using j hit by (auto simp: list_ex_iff)
  moreover have "\<forall>i' < i. \<not> ?P (idCandidates ! i')"
    using before by (auto simp: list_ex_iff)
  ultimately have "find ?P idCandidates = Some (idCandidates ! i)"
    using i by (auto simp: find_Some_iff)
  moreover have "find (\<lambda>k. includesStr (toLowerCase k) (idCandidates ! i)) ?ord = Some (?ord ! j)"
    using j hit first by (auto simp: find_Some_iff)
  ultimately show ?thesis
    by (simp add: idField_def)
qed

lemma scenario_text: "appTextFields scenarioRows = [''Name'', ''Reg'', ''Physics_1_Credit'']"
  by (simp add: scenarioRows_def appTextFields_def detectTextFields_def row_defs char_defs)

lemma scenario_ordered:
  "orderedKeys scenarioRows (appTextFields scenarioRows) =
     [''Name'', ''Reg'', ''Physics_1_Credit'', ''CGPA'', ''Physics_1'']"
  unfolding scenario_text by (simp add: orderedKeys_def sampleKeys_def scenarioRows_def row_defs)


text \<open>
  C9. The search order is the text fields followed by the other keys of the first
  row. The candidate tokens are tried in the order of the list; the first one that
  occurs in the lowercase form of some field name decides, and the identifier is the
  first field in search order whose lowercase name contains it. When no token occurs
  in any field name there is no identifier.
\<close>

theorem identifier_is_first_field_with_first_token:
  "(let ordered = orderedKeys rows (appTextFields rows) in
      ordered = appTextFields rows @
                filter (\<lambda>k. k \<notin> set (appTextFields rows)) (sampleKeys rows) \<and>
      ((\<forall>c \<in> set idCandidates. \<forall>k \<in> set (sampleKeys rows). \<not> includesStr (toLowerCase k) c)
         \<longrightarrow> appIdField rows = None) \<and>
      (i < length idCandidates \<and> j < length ordered \<and>
       (\<forall>i' < i. \<forall>k \<in> set (sampleKeys rows). \<not> includesStr (toLowerCase k) (idCandidates ! i')) \<and>
       includesStr (toLowerCase (ordered ! j)) (idCandidates ! i) \<and>
       (\<forall>j' < j. \<not> includesStr (toLowerCase (ordered ! j')) (idCandidates ! i))
         \<longrightarrow> appIdField rows = Some (ordered ! j))) \<and>
   idCandidates =
     [''roll'', ''reg'', ''registration'', ''enrol'', ''enrollment'', ''admission'', ''id'']"
proof -
  let ?tf = "appTextFields rows"
  let ?ord = "orderedKeys rows ?tf"
  have order: "?ord = ?tf @ filter (\<lambda>k. k \<notin> set ?tf) (sampleKeys rows)"
    by (simp add: orderedKeys_def)
  have none: "appIdField rows = None"
    if "\<forall>c \<in> set idCandidates. \<forall>k \<in> set (sampleKeys rows). \<not> includesStr (toLowerCase k) c"
    using that idField_None [of rows ?tf] by (simp add: set_orderedKeys appIdField_def)
  have some: "appIdField rows = Some (?ord ! j)"
    if "i < length idCandidates \<and> j < length ?ord \<and>
       (\<forall>i' < i. \<forall>k \<in> set (sampleKeys rows). \<not> includesStr (toLowerCase k) (idCandidates ! i')) \<and>
       includesStr (toLowerCase (?ord ! j)) (idCandidates ! i) \<and>
       (\<forall>j' < j. \<not> includesStr (toLowerCase (?ord ! j')) (idCandidates ! i))"
    using that idField_Some [where i = i and j = j and rows = rows and tf = ?tf]
    by (simp add: set_orderedKeys appIdField_def)
  from order none some show ?thesis
    unfolding Let_def by (intro conjI impI) (simp_all add: idCandidates_def)
qed

theorem identifier_is_first_field_with_first_token_witness:
  "appIdField scenarioRows = Some ''Reg'' \<and> appIdField [] = None"
proof -
  let ?ord = "[''Name'', ''Reg'', ''Physics_1_Credit'', ''CGPA'', ''Physics_1'']"
  have keys: "sampleKeys scenarioRows =
      [''Name'', ''Reg'', ''CGPA'', ''Physics_1'', ''Physics_1_Credit'']"
    by (simp add: sampleKeys_def scenarioRows_def row_defs)
  have 1: "(1::nat) < length idCandidates" "(1::nat) < length ?ord"
    by (simp_all add: idCandidates_def)
  have 2: "\<forall>i' < (1::nat). \<forall>k \<in> set (sampleKeys scenarioRows).
             \<not> includesStr (toLowerCase k) (idCandidates ! i')"
    unfolding keys by (simp add: idCandidates_def char_defs)
  have 3: "includesStr (toLowerCase (?ord ! 1)) (idCandidates ! 1)"
    by (simp add: idCandidates_def char_defs)
  have 4: "\<forall>j' < (1::nat). \<not> includesStr (toLowerCase (?ord ! j')) (idCandidates ! 1)"
    by (simp add: idCandidates_def char_defs)
  have "appIdField scenarioRows = Some (?ord ! 1)"
    using identifier_is_first_field_with_first_token [where rows = scenarioRows and i = 1 and j = 1]
      1 2 3 4
    unfolding Let_def scenario_ordered by blast
  moreover have "appIdField [] = None"
    using identifier_is_first_field_with_first_token [where rows = "[]" and i = 0 and j = 0]
    by (simp add: sampleKeys_def Let_def)
  ultimately show ?thesis by simp
qed

subsection \<open>The primary numeric field\<close>

lemma findIndex_Some_iff:
  "findIndex P xs = Some i \<longleftrightarrow> i < length xs \<and> P (xs ! i) \<and> (\<forall>j < i. \<not> P (xs ! j))"
proof (induction xs arbitrary: i)
  case Nil
  then show ?case by simp
next
  case (Cons x xs)
  show ?case
  proof (cases "P x")
    case True
    then show ?thesis by (cases i) auto
  next
    case False
    show ?thesis
    proof (cases i)
      case 0
      with False show ?thesis by auto
    next
      case (Suc n)
      with False Cons.IH [of n] show ?thesis
        by (auto simp: less_Suc_eq_0_disj)
    qed
  qed
qed

lemma findIndex_None_iff: "findIndex P xs = None \<longleftrightarrow> (\<forall>x \<in> set xs. \<not> P x)"
  by (induction xs) auto

lemma primaryNumericField_hit:
  assumes "i < length nf"
    and "\<exists>p \<in> set preferred. includesStr (toLowerCase (nf ! i)) p"
    and "\<forall>j < i. \<not> (\<exists>p \<in> set preferred. includesStr (toLowerCase (nf ! j)) p)"
  shows "primaryNumericField nf sf = Some (nf ! i)"
proof -
  have "findIndex (\<lambda>f. list_ex (\<lambda>p. includesStr f p) preferred) (map toLowerCase nf) = Some i"
    using assms by (simp add: findIndex_Some_iff list_ex_iff)
  with assms(1) show ?thesis
    by (auto simp: primaryNumericField_def)
qed

lemma primaryNumericField_miss:
  assumes "nf \<noteq> []"
    and "\<forall>f \<in> set nf. \<not> (\<exists>p \<in> set preferred. includesStr (toLowerCase f) p)"
  shows "primaryNumericField nf sf = (if sf \<noteq> [] then Some (key (hd sf)) else Some (hd nf))"
proof -
  have "findIndex (\<lambda>f. list_ex (\<lambda>p. includesStr f p) preferred) (map toLowerCase nf) = None"
    using assms(2) by (simp add: findIndex_None_iff list_ex_iff)
  with assms(1) show ?thesis
    by (cases sf) (simp_all add: primaryNumericField_def)
qed

lemma scenario_numeric: "appNumericFields scenarioRows = [''Reg'', ''CGPA'', ''Physics_1'']"
  by (simp add: scenarioRows_def appNumericFields_def detectNumericFields_def row_defs
      char_defs parse_defs)

text \<open>
  C1, as the code has it. Without numeric fields there is no primary numeric field,
  also when subject fields exist. Otherwise it is the first numeric field whose
  lowercase name contains one of the preferred tokens; when no numeric field does,
  it is the key of the first subject field when there is one, and the first numeric
  field when there is none.
\<close>

theorem primary_numeric_field_selection:
  "(let nf = appNumericFields rows; sf = appSubjectFields rows;
        hit = (\<lambda>f. \<exists>p \<in> set preferred. includesStr (toLowerCase f) p)
    in (nf = [] \<longrightarrow> appPrimaryNumericField rows = None) \<and>
       (i < length nf \<and> hit (nf ! i) \<and> (\<forall>j < i. \<not> hit (nf ! j)) \<longrightarrow>
          appPrimaryNumericField rows = Some (nf ! i)) \<and>
       (nf \<noteq> [] \<and> (\<forall>f \<in> set nf. \<not> hit f) \<and> sf \<noteq> [] \<longrightarrow>
          appPrimaryNumericField rows = Some (key (hd sf))) \<and>
       (nf \<noteq> [] \<and> (\<forall>f \<in> set nf. \<not> hit f) \<and> sf = [] \<longrightarrow>
          appPrimaryNumericField rows = Some (hd nf))) \<and>
   preferred =
     [''cg'', ''cgpa'', ''gpa'', ''total'', ''aggregate'', ''overall'', ''sgpa'',
      ''percentage'', ''percent'', ''score'']"
proof -
  let ?nf = "appNumericFields rows" and ?sf = "appSubjectFields rows"
  let ?hit = "\<lambda>f. \<exists>p \<in> set preferred. includesStr (toLowerCase f) p"
  have 1: "appPrimaryNumericField rows = None" if "?nf = []"
    using that by (simp add: appPrimaryNumericField_def primaryNumericField_def)
  have 2: "appPrimaryNumericField rows = Some (?nf ! i)"
    if "i < length ?nf \<and> ?hit (?nf ! i) \<and> (\<forall>j < i. \<not> ?hit (?nf ! j))"
    using that primaryNumericField_hit [of i ?nf ?sf]
    by (simp add: appPrimaryNumericField_def)
  have 3: "appPrimaryNumericField rows = Some (key (hd ?sf))"
    if "?nf \<noteq> [] \<and> (\<forall>f \<in> set ?nf. \<not> ?hit f) \<and> ?sf \<noteq> []"
    using that primaryNumericField_miss [of ?nf ?sf]
    by (simp add: appPrimaryNumericField_def)
  have 4: "appPrimaryNumericField rows = Some (hd ?nf)"
    if "?nf \<noteq> [] \<and> (\<forall>f \<in> set ?nf. \<not> ?hit f) \<and> ?sf = []"
    using that primaryNumericField_miss [of ?nf ?sf]
    by (simp add: appPrimaryNumericField_def)
  from 1 2 3 4 show ?thesis
    unfolding Let_def by (intro conjI impI) (simp_all add: preferred_def)
qed

theorem primary_numeric_field_selection_witness:
  "appPrimaryNumericField [[(''Math'', Str [])], [(''Math'', Num (Fin 80))]] = None \<and>
   appPrimaryNumericField scenarioRows = Some ''CGPA'' \<and>
   appPrimaryNumericField [[(''Roll'', Num (Fin 1)), (''Math'', Num (Fin 80))]] = Some ''Math'' \<and>
   appPrimaryNumericField [[(''Roll'', Num (Fin 1))]] = Some ''Roll''"
proof -
  let ?hit = "\<lambda>f. \<exists>p \<in> set preferred. includesStr (toLowerCase f) p"
  let ?a = "[[(''Math'', Str [])], [(''Math'', Num (Fin 80))]]"
  let ?c = "[[(''Roll'', Num (Fin 1)), (''Math'', Num (Fin 80))]]"
  let ?d = "[[(''Roll'', Num (Fin 1))]]"
  have reg: "\<not> ?hit ''Reg''" and cgpa: "?hit ''CGPA''" and roll: "\<not> ?hit ''Roll''"
    and math: "\<not> ?hit ''Math''"
    by (simp_all add: preferred_def char_defs)
  have a: "appNumericFields ?a = []"
    by (simp add: appNumericFields_def detectNumericFields_def row_defs char_defs parse_defs)
  have 1: "appPrimaryNumericField ?a = None"
    using primary_numeric_field_selection [where rows = ?a and i = 0] a
    unfolding Let_def by blast
  have "1 < length [''Reg'', ''CGPA'', ''Physics_1''] \<and>
        ?hit ([''Reg'', ''CGPA'', ''Physics_1''] ! 1) \<and>
        (\<forall>j < 1. \<not> ?hit ([''Reg'', ''CGPA'', ''Physics_1''] ! j))"
    using reg cgpa by simp
  with primary_numeric_field_selection [where rows = scenarioRows and i = 1]
  have "appPrimaryNumericField scenarioRows = Some ([''Reg'', ''CGPA'', ''Physics_1''] ! 1)"
    unfolding Let_def scenario_numeric by blast
  then have 2: "appPrimaryNumericField scenarioRows = Some ''CGPA''"
    by simp
  have cn: "appNumericFields ?c = [''Roll'', ''Math'']"
    by (simp add: appNumericFields_def detectNumericFields_def row_defs char_defs parse_defs)
  have cs: "appSubjectFields ?c = [\<lparr>key = ''Math'', label = ''Math'', credit = None\<rparr>]"
    by (simp add: appSubjectFields_def appTextFields_def detectTextFields_def subject_defs
        row_defs char_defs parse_defs)
  have "[''Roll'', ''Math''] \<noteq> [] \<and> (\<forall>f \<in> set [''Roll'', ''Math'']. \<not> ?hit f) \<and>
        [\<lparr>key = ''Math'', label = ''Math'', credit = None\<rparr>] \<noteq> []"
    using roll math by simp
  with primary_numeric_field_selection [where rows = ?c and i = 0]
  have "appPrimaryNumericField ?c =
          Some (key (hd [\<lparr>key = ''Math'', label = ''Math'', credit = None\<rparr>]))"
    unfolding Let_def cn cs by blast
  then have 3: "appPrimaryNumericField ?c = Some ''Math''"
    by simp
  have dn: "appNumericFields ?d = [''Roll'']"
    by (simp add: appNumericFields_def detectNumericFields_def row_defs char_defs parse_defs)
  have ds: "appSubjectFields ?d = []"
    by (simp add: appSubjectFields_def appTextFields_def detectTextFields_def subject_defs
        row_defs char_defs parse_defs)
  have "[''Roll''] \<noteq> [] \<and> (\<forall>f \<in> set [''Roll'']. \<not> ?hit f)"
    using roll by simp
  with primary_numeric_field_selection [where rows = ?d and i = 0]
  have "appPrimaryNumericField ?d = Some (hd [''Roll''])"
    unfolding Let_def dn ds by blast
  then have 4: "appPrimaryNumericField ?d = Some ''Roll''"
    by simp
  from 1 2 3 4 show ?thesis by blast
qed

text \<open>
  The claim as written selects the first subject when there are no numeric fields.
  The column \<open>Math\<close> is empty in the first row and numeric in the second: it is no
  numeric field, it is a subject, and the selection is none.
\<close>

theorem primary_numeric_none_counterexample:
  "appNumericFields [[(''Math'', Str '''')], [(''Math'', Num (Fin 80))]] = [] \<and>
   map key (appSubjectFields [[(''Math'', Str '''')], [(''Math'', Num (Fin 80))]]) = [''Math''] \<and>
   appPrimaryNumericField [[(''Math'', Str '''')], [(''Math'', Num (Fin 80))]] = None"
  by (simp add: appNumericFields_def appSubjectFields_def appPrimaryNumericField_def
      appTextFields_def detectNumericFields_def detectTextFields_def primaryNumericField_def
      subject_defs row_defs char_defs parse_defs)

subsection \<open>Summary statistics\<close>







subsection \<open>The histogram\<close>





lemma countValues_throws:
  "vs \<noteq> [] \<Longrightarrow> countValues mn mx bins [] vs = Inl TypeError"
  by (cases vs) simp_all















subsection \<open>The chart data\<close>

lemma map_of_setProp: "map_of (setProp k v ps) = (map_of ps)(k \<mapsto> v)"
  by (induction ps) (auto simp: fun_eq_iff)

lemma keys_setProp: "set (map fst (setProp k v ps)) = insert k (set (map fst ps))"
  by (induction ps) auto

lemma distinct_setProp: "distinct (map fst ps) \<Longrightarrow> distinct (map fst (setProp k v ps))"
proof (induction ps)
  case Nil
  then show ?case by simp
next
  case (Cons p ps)
  show ?case
  proof (cases "fst p = k")
    case True
    with Cons.prems show ?thesis by simp
  next
    case False
    with Cons have "distinct (map fst (setProp k v ps))" "fst p \<notin> set (map fst ps)"
      by simp_all
    with False show ?thesis
      using keys_setProp [of k v ps] by simp
  qed
qed

lemma countRow_skip: "bucketOf r m = None \<Longrightarrow> countRow m r bins = bins"
  by (auto simp: bucketOf_def countRow_def split: jsnum.splits)

lemma countRow_count:
  "bucketOf r m = Some b \<Longrightarrow>
     countRow m r bins =
       (let bin = (case map_of bins b of None \<Rightarrow> [(''gpa'', b)] | Some bin \<Rightarrow> bin)
        in setProp b (setProp m (propOr0 bin m + 1) bin) bins)"
  by (auto simp: bucketOf_def countRow_def Let_def split: jsnum.splits)

lemma binsInv_countRow:
  assumes m: "m \<noteq> ''gpa''" and inv: "binsInv bins cnt"
  shows "binsInv (countRow m r bins)
           (\<lambda>b m'. cnt b m' + (if m' = m \<and> bucketOf r m = Some b then 1 else 0))"
proof (cases "bucketOf r m")
  case None
  with inv show ?thesis
    by (simp add: countRow_skip)
next
  case (Some b0)
  let ?bin = "case map_of bins b0 of None \<Rightarrow> [(''gpa'', b0)] | Some bin \<Rightarrow> bin"
  let ?bin' = "setProp m (propOr0 ?bin m + 1) ?bin"
  let ?cnt = "\<lambda>b m'. cnt b m' + (if m' = m \<and> bucketOf r m = Some b then 1 else 0)"
  have run: "countRow m r bins = setProp b0 ?bin' bins"
    using countRow_count [OF Some, of bins] by (simp add: Let_def)
  have lookup: "map_of (countRow m r bins) = (map_of bins)(b0 \<mapsto> ?bin')"
    unfolding run by (rule map_of_setProp)
  from inv have dist: "distinct (map fst (countRow m r bins))"
    unfolding run by (simp add: binsInv_def distinct_setProp)
  have old: "propOr0 ?bin m = of_nat (cnt b0 m)"
    and gpa: "map_of ?bin ''gpa'' = Some b0"
    and others: "\<forall>m'. m' \<noteq> ''gpa'' \<longrightarrow>
        map_of ?bin m' = (if cnt b0 m' = 0 then None else Some (of_nat (cnt b0 m')))"
  proof -
    from inv have at: "case map_of bins b0 of
             None \<Rightarrow> \<forall>m. cnt b0 m = 0
           | Some bin \<Rightarrow>
               map_of bin ''gpa'' = Some b0 \<and> (\<exists>m. 0 < cnt b0 m) \<and>
               (\<forall>m. m \<noteq> ''gpa'' \<longrightarrow>
                  map_of bin m = (if cnt b0 m = 0 then None else Some (of_nat (cnt b0 m))))"
      unfolding binsInv_def by blast
    show "map_of ?bin ''gpa'' = Some b0"
      using at by (cases "map_of bins b0") simp_all
    show o: "\<forall>m'. m' \<noteq> ''gpa'' \<longrightarrow>
        map_of ?bin m' = (if cnt b0 m' = 0 then None else Some (of_nat (cnt b0 m')))"
      using at by (cases "map_of bins b0") simp_all
    with m show "propOr0 ?bin m = of_nat (cnt b0 m)"
      by (simp add: propOr0_def)
  qed
  have new: "map_of ?bin' = (map_of ?bin)(m \<mapsto> of_nat (cnt b0 m) + 1)"
    unfolding old by (rule map_of_setProp)
  have "case map_of (countRow m r bins) b of
             None \<Rightarrow> \<forall>m'. ?cnt b m' = 0
           | Some bin \<Rightarrow>
               map_of bin ''gpa'' = Some b \<and> (\<exists>m'. 0 < ?cnt b m') \<and>
               (\<forall>m'. m' \<noteq> ''gpa'' \<longrightarrow>
                  map_of bin m' = (if ?cnt b m' = 0 then None else Some (of_nat (?cnt b m'))))"
    for b
  proof (cases "b = b0")
    case True
    have "0 < ?cnt b0 m"
      using Some by simp
    then have "\<exists>m'. 0 < ?cnt b0 m'" ..
    moreover have "map_of ?bin' ''gpa'' = Some b0"
      using m gpa by (simp add: new)
    moreover have "\<forall>m'. m' \<noteq> ''gpa'' \<longrightarrow>
        map_of ?bin' m' = (if ?cnt b0 m' = 0 then None else Some (of_nat (?cnt b0 m')))"
      using others Some by (simp add: new)
    ultimately show ?thesis
      unfolding lookup True by simp
  next
    case False
    with Some have nb: "bucketOf r m \<noteq> Some b"
      by simp
    from inv have "case map_of bins b of
             None \<Rightarrow> \<forall>m. cnt b m = 0
           | Some bin \<Rightarrow>
               map_of bin ''gpa'' = Some b \<and> (\<exists>m. 0 < cnt b m) \<and>
               (\<forall>m. m \<noteq> ''gpa'' \<longrightarrow>
                  map_of bin m = (if cnt b m = 0 then None else Some (of_nat (cnt b m))))"
      unfolding binsInv_def by blast
    with False show ?thesis
      unfolding lookup by (cases "map_of bins b") (simp_all add: nb)
  qed
  with dist show ?thesis
    unfolding binsInv_def by blast
qed

lemma binsInv_cong:
  "binsInv bins cnt \<Longrightarrow> bins = bins' \<Longrightarrow> cnt = cnt' \<Longrightarrow> binsInv bins' cnt'"
  by simp

lemma binsInv_rows:
  assumes "m \<noteq> ''gpa''" "binsInv bins cnt"
  shows "binsInv (fold (countRow m) rows bins)
           (\<lambda>b m'. cnt b m' + (if m' = m then contributions rows m b else 0))"
  using assms(2)
proof (induction rows arbitrary: bins cnt)
  case Nil
  then show ?case
    by (rule binsInv_cong) (simp_all add: fun_eq_iff contributions_def)
next
  case (Cons r rows)
  from binsInv_countRow [OF assms(1) Cons.prems, of r]
  have "binsInv (fold (countRow m) rows (countRow m r bins))
          (\<lambda>b m'. cnt b m' + (if m' = m \<and> bucketOf r m = Some b then 1 else 0) +
             (if m' = m then contributions rows m b else 0))"
    by (rule Cons.IH)
  then show ?case
    by (rule binsInv_cong) (auto simp: fun_eq_iff contributions_def)
qed

lemma binsInv_metrics:
  assumes "''gpa'' \<notin> set metrics" "binsInv bins cnt"
  shows "binsInv (fold (\<lambda>m. fold (countRow m) rows) metrics bins)
           (\<lambda>b m'. cnt b m' + count_list metrics m' * contributions rows m' b)"
  using assms
proof (induction metrics arbitrary: bins cnt)
  case Nil
  then show ?case by simp
next
  case (Cons m metrics)
  from Cons.prems have m: "m \<noteq> ''gpa''" and rest: "''gpa'' \<notin> set metrics"
    by auto
  from binsInv_rows [OF m Cons.prems(2), of rows]
  have "binsInv (fold (\<lambda>m. fold (countRow m) rows) metrics (fold (countRow m) rows bins))
          (\<lambda>b m'. cnt b m' + (if m' = m then contributions rows m b else 0) +
             count_list metrics m' * contributions rows m' b)"
    by (rule Cons.IH [OF rest])
  then show ?case
    by (rule binsInv_cong) (auto simp: fun_eq_iff)
qed

lemma binsInv_empty: "binsInv [] (\<lambda>b m. 0)"
  by (simp add: binsInv_def)

lemma map_insort_key: "map f (insort_key f x xs) = insort (f x) (map f xs)"
  by (induction xs) simp_all

lemma map_sort_key: "map f (sort_key f xs) = sort (map f xs)"
  by (induction xs) (simp_all add: map_insort_key)


lemma count_pos_iff:
  "0 < count_list metrics m * contributions rows m b \<longleftrightarrow>
     m \<in> set metrics \<and> (\<exists>r \<in> set rows. bucketOf r m = Some b)"
proof -
  have "0 < count_list metrics m \<longleftrightarrow> m \<in> set metrics"
    by (induction metrics) auto
  moreover have "0 < contributions rows m b \<longleftrightarrow> (\<exists>r \<in> set rows. bucketOf r m = Some b)"
    by (auto simp: contributions_def filter_empty_conv)
  ultimately show ?thesis by simp
qed

lemma binsInv_final:
  assumes "''gpa'' \<notin> set metrics"
  shows "binsInv (fold (\<lambda>m. fold (countRow m) rows) metrics [])
           (\<lambda>b m. count_list metrics m * contributions rows m b)"
  using binsInv_metrics [OF assms binsInv_empty, of rows] by simp

lemma binsInv_entry:
  assumes "binsInv bins cnt" "(b, bin) \<in> set bins"
  shows "propOr0 bin ''gpa'' = b \<and> (\<exists>m. 0 < cnt b m) \<and>
         (\<forall>m. m \<noteq> ''gpa'' \<longrightarrow>
            map_of bin m = (if cnt b m = 0 then None else Some (of_nat (cnt b m))))"
proof -
  from assms have "map_of bins b = Some bin"
    by (simp add: binsInv_def)
  moreover from assms(1) have "case map_of bins b of
             None \<Rightarrow> \<forall>m. cnt b m = 0
           | Some bin \<Rightarrow>
               map_of bin ''gpa'' = Some b \<and> (\<exists>m. 0 < cnt b m) \<and>
               (\<forall>m. m \<noteq> ''gpa'' \<longrightarrow>
                  map_of bin m = (if cnt b m = 0 then None else Some (of_nat (cnt b m))))"
    unfolding binsInv_def by blast
  ultimately show ?thesis
    by (simp add: propOr0_def)
qed

lemma binsInv_keys:
  assumes "binsInv bins cnt"
  shows "set (map fst bins) = {b. \<exists>m. 0 < cnt b m}"
proof (intro set_eqI iffI)
  fix b assume "b \<in> set (map fst bins)"
  then obtain bin where "(b, bin) \<in> set bins" by auto
  from binsInv_entry [OF assms this] show "b \<in> {b. \<exists>m. 0 < cnt b m}" by simp
next
  fix b assume b: "b \<in> {b. \<exists>m. 0 < cnt b m}"
  from assms have "case map_of bins b of
             None \<Rightarrow> \<forall>m. cnt b m = 0
           | Some bin \<Rightarrow>
               map_of bin ''gpa'' = Some b \<and> (\<exists>m. 0 < cnt b m) \<and>
               (\<forall>m. m \<noteq> ''gpa'' \<longrightarrow>
                  map_of bin m = (if cnt b m = 0 then None else Some (of_nat (cnt b m))))"
    unfolding binsInv_def by blast
  with b have "map_of bins b \<noteq> None"
    by (cases "map_of bins b") auto
  then show "b \<in> set (map fst bins)"
    by (simp add: map_of_eq_None_iff)
qed

lemma binsInv_gpa:
  assumes "binsInv bins cnt"
  shows "map (\<lambda>bin. propOr0 bin ''gpa'') (map snd bins) = map fst bins"
proof -
  have "propOr0 (snd p) ''gpa'' = fst p" if "p \<in> set bins" for p
    using binsInv_entry [OF assms, of "fst p" "snd p"] that by simp
  then show ?thesis by simp
qed

lemma floor_rat_numeral_div: "\<lfloor>(numeral a :: rat) / numeral b\<rfloor> = numeral a div numeral b"
  by (metis floor_divide_of_int_eq of_int_numeral)

lemmas chart_defs = buildGpaCountData_def countRow_def toFixed2_def propOr0_def Let_def
  floor_rat_numeral_div

text \<open>
  When no metric key is \<open>gpa\<close>, the chart data has one row per bucket that some row
  falls in under some metric, whichever metric it is; the rows are in ascending
  order of their bucket values; and a row holds a count under a metric key exactly
  when some row of the dataset falls in its bucket under that metric, the count
  being the number of such rows, once for each time the key is listed.
\<close>

theorem chart_rows_without_gpa_metric:
  "''gpa'' \<notin> set metrics \<longrightarrow>
     (let out = buildGpaCountData rows metrics;
          buckets = map (\<lambda>bin. propOr0 bin ''gpa'') out
      in sorted buckets \<and> distinct buckets \<and>
         set buckets = {b. \<exists>m \<in> set metrics. \<exists>r \<in> set rows. bucketOf r m = Some b} \<and>
         (\<forall>bin \<in> set out. \<forall>m. m \<noteq> ''gpa'' \<longrightarrow>
            map_of bin m =
              (if m \<in> set metrics \<and> (\<exists>r \<in> set rows. bucketOf r m = Some (propOr0 bin ''gpa''))
               then Some (of_nat (count_list metrics m *
                                  contributions rows m (propOr0 bin ''gpa'')))
               else None)))"
proof
  assume gpa: "''gpa'' \<notin> set metrics"
  let ?gpaOf = "\<lambda>bin. propOr0 bin ''gpa''"
  let ?cnt = "\<lambda>b m. count_list metrics m * contributions rows m b"
  let ?bins = "fold (\<lambda>m. fold (countRow m) rows) metrics []"
  let ?out = "sort_key ?gpaOf (map snd ?bins)"
  have inv: "binsInv ?bins ?cnt"
    using gpa by (rule binsInv_final)
  have out: "buildGpaCountData rows metrics = ?out"
  proof (cases "rows = [] \<or> metrics = []")
    case True
    have "fold (\<lambda>m. fold (countRow m) []) metrics [] = []"
      by (induction metrics) simp_all
    with True show ?thesis
      by (auto simp: buildGpaCountData_def)
  next
    case False
    then show ?thesis
      by (simp add: buildGpaCountData_def)
  qed
  have buckets: "map ?gpaOf ?out = sort (map fst ?bins)"
    by (simp only: map_sort_key binsInv_gpa [OF inv])
  have 1: "sorted (map ?gpaOf ?out)"
    unfolding buckets by simp
  have 2: "distinct (map ?gpaOf ?out)"
    unfolding buckets using inv by (simp add: binsInv_def)
  have "set (map ?gpaOf ?out) = {b. \<exists>m. 0 < ?cnt b m}"
    unfolding buckets using binsInv_keys [OF inv] by simp
  then have 3: "set (map ?gpaOf ?out) =
      {b. \<exists>m \<in> set metrics. \<exists>r \<in> set rows. bucketOf r m = Some b}"
    unfolding count_pos_iff by blast
  have 4: "\<forall>bin \<in> set ?out. \<forall>m. m \<noteq> ''gpa'' \<longrightarrow>
      map_of bin m =
        (if m \<in> set metrics \<and> (\<exists>r \<in> set rows. bucketOf r m = Some (?gpaOf bin))
         then Some (of_nat (?cnt (?gpaOf bin) m)) else None)"
  proof (intro ballI allI impI)
    fix bin m assume "bin \<in> set ?out" and m: "m \<noteq> ''gpa''"
    then obtain b where "(b, bin) \<in> set ?bins"
      by auto
    from binsInv_entry [OF inv this] m
    have "?gpaOf bin = b"
      and "map_of bin m = (if ?cnt b m = 0 then None else Some (of_nat (?cnt b m)))"
      by simp_all
    then show "map_of bin m =
        (if m \<in> set metrics \<and> (\<exists>r \<in> set rows. bucketOf r m = Some (?gpaOf bin))
         then Some (of_nat (?cnt (?gpaOf bin) m)) else None)"
      using count_pos_iff [of metrics m rows b] by auto
  qed
  from 1 2 3 4 show "let out = buildGpaCountData rows metrics;
          buckets = map (\<lambda>bin. propOr0 bin ''gpa'') out
      in sorted buckets \<and> distinct buckets \<and>
         set buckets = {b. \<exists>m \<in> set metrics. \<exists>r \<in> set rows. bucketOf r m = Some b} \<and>
         (\<forall>bin \<in> set out. \<forall>m. m \<noteq> ''gpa'' \<longrightarrow>
            map_of bin m =
              (if m \<in> set metrics \<and> (\<exists>r \<in> set rows. bucketOf r m = Some (propOr0 bin ''gpa''))
               then Some (of_nat (count_list metrics m *
                                  contributions rows m (propOr0 bin ''gpa'')))
               else None))"
    unfolding Let_def out by blast
qed

theorem chart_rows_without_gpa_metric_witness:
  "buildGpaCountData scenarioRows [''CGPA'', ''Physics_1''] =
     [[(''gpa'', 367 / 100), (''CGPA'', 2)], [(''gpa'', 65), (''Physics_1'', 1)],
      [(''gpa'', 78), (''Physics_1'', 1)]] \<and>
   sorted [367 / 100, 65, 78 :: rat] \<and>
   map_of [(''gpa'', 65), (''Physics_1'', 1 :: rat)] ''CGPA'' = None"
proof -
  have out: "buildGpaCountData scenarioRows [''CGPA'', ''Physics_1''] =
     [[(''gpa'', 367 / 100), (''CGPA'', 2)], [(''gpa'', 65), (''Physics_1'', 1)],
      [(''gpa'', 78), (''Physics_1'', 1)]]"
    by (simp add: chart_defs row_defs scenarioRows_def)
  have "''gpa'' \<notin> set [''CGPA'', ''Physics_1'']"
    by simp
  with chart_rows_without_gpa_metric [of "[''CGPA'', ''Physics_1'']" scenarioRows]
  have "sorted [367 / 100, 65, 78 :: rat]"
    unfolding Let_def out by (simp add: propOr0_def)
  with out show ?thesis by simp
qed

text \<open>
  C7 asks for one chart row per bucket value, with a count for each metric that has
  a row in the bucket. The code keeps the bucket value in the property \<open>gpa\<close> of
  the chart row and the count of a metric in the property named by the metric key.
  For the metric key \<open>gpa\<close>, which the app selects for a sheet with a numeric column
  of that name, the two are one property: the count is added to the bucket value,
  so the value 3.5 gives a row with \<open>gpa = 4.5\<close> and no count. The same sheet with
  the header \<open>GPA\<close> gives the row that the claim describes.
\<close>

theorem gpa_metric_overwrites_bucket_value:
  "appPrimaryNumericField [[(''gpa'', Num (Fin (7 / 2)))]] = Some ''gpa'' \<and>
   buildGpaCountData [[(''gpa'', Num (Fin (7 / 2)))]] [''gpa''] = [[(''gpa'', 9 / 2)]] \<and>
   buildGpaCountData [[(''GPA'', Num (Fin (7 / 2)))]] [''GPA''] = [[(''gpa'', 7 / 2), (''GPA'', 1)]]"
proof (intro conjI)
  show "appPrimaryNumericField [[(''gpa'', Num (Fin (7 / 2)))]] = Some ''gpa''"
    by (simp add: appPrimaryNumericField_def appNumericFields_def detectNumericFields_def
        primaryNumericField_def preferred_def row_defs char_defs)
  show "buildGpaCountData [[(''gpa'', Num (Fin (7 / 2)))]] [''gpa''] = [[(''gpa'', 9 / 2)]]"
    by (simp add: chart_defs row_defs)
  show "buildGpaCountData [[(''GPA'', Num (Fin (7 / 2)))]] [''GPA''] =
          [[(''gpa'', 7 / 2), (''GPA'', 1)]]"
    by (simp add: chart_defs row_defs)
qed

end
